theory Spec2Isabelle
  imports Complex_Main "HOL-Library.Product_Lexorder" "HOL-Library.Multiset"
begin

section \<open>Data model\<close>

text \<open>
  One row of the data frame that \<^verbatim>\<open>load_data\<close> hands to the analysis functions. The
  columns \<^verbatim>\<open>Date, Open, High, Low, Close\<close> come from the CSV file; \<^verbatim>\<open>DayOfWeek\<close>
  (Monday = 0 ... Sunday = 6), \<^verbatim>\<open>Week\<close> and \<^verbatim>\<open>Year\<close> (ISO week and ISO year) are added by
  \<^verbatim>\<open>load_data\<close> through pandas. The analysis functions only read the columns, so a row
  carries all eight of them. A date is the number of the day (days since
  1970-01-01); prices are real numbers (the comparisons \<^verbatim>\<open>>\<close> and \<^verbatim>\<open><\<close> of the
  source on finite floats are the comparisons of the reals they denote).
\<close>

record candle =
  Date :: int
  Open :: real
  High :: real
  Low :: real
  Close :: real
  DayOfWeek :: int
  Week :: int
  Year :: int

type_synonym dataframe = "candle list"

text \<open>The exceptions the modelled code can raise.\<close>

datatype py_exception = IndexError | KeyError | ZeroDivisionError

text \<open>Sequencing of a computation that may raise: the exception propagates.\<close>

definition and_then :: "py_exception + 'a \<Rightarrow> ('a \<Rightarrow> py_exception + 'b) \<Rightarrow> py_exception + 'b" where
  "and_then m f = (case m of Inl e \<Rightarrow> Inl e | Inr v \<Rightarrow> f v)"

text \<open>\<^verbatim>\<open>series.iloc[0]\<close>: the first element, \<^verbatim>\<open>IndexError\<close> on an empty series.\<close>

fun iloc0 :: "'a list \<Rightarrow> py_exception + 'a" where
  "iloc0 [] = Inl IndexError"
| "iloc0 (x # xs) = Inr x"

text \<open>
  Python's true division \<^verbatim>\<open>a / b\<close> of two integers, over exact arithmetic:
  \<^verbatim>\<open>ZeroDivisionError\<close> when the divisor is zero.
\<close>

definition py_div :: "int \<Rightarrow> int \<Rightarrow> py_exception + real" where
  "py_div a b = (if b = 0 then Inl ZeroDivisionError else Inr (real_of_int a / real_of_int b))"

subsection \<open>Dictionaries and counters\<close>

text \<open>
  A Python dictionary keeps its keys in insertion order: an association list with
  distinct keys. \<^verbatim>\<open>d[k] = v\<close> overwrites in place or appends; \<^verbatim>\<open>d[k]\<close> raises
  \<^verbatim>\<open>KeyError\<close> on a missing key.
\<close>

fun dict_set :: "'k \<Rightarrow> 'v \<Rightarrow> ('k \<times> 'v) list \<Rightarrow> ('k \<times> 'v) list" where
  "dict_set k v [] = [(k, v)]"
| "dict_set k v (kv # d) = (if fst kv = k then (k, v) # d else kv # dict_set k v d)"

fun dict_get :: "('k \<times> 'v) list \<Rightarrow> 'k \<Rightarrow> py_exception + 'v" where
  "dict_get [] k = Inl KeyError"
| "dict_get (kv # d) k = (if fst kv = k then Inr (snd kv) else dict_get d k)"

text \<open>
  \<^verbatim>\<open>collections.Counter\<close>: a dictionary whose lookup of a missing key gives 0, so that
  \<^verbatim>\<open>c[k] += 1\<close> is \<^verbatim>\<open>c[k] = c[k] + 1\<close> and never raises.
\<close>

type_synonym counter = "(int \<times> int) list"

fun counter_get :: "counter \<Rightarrow> int \<Rightarrow> int" where
  "counter_get [] k = 0"
| "counter_get (kv # c) k = (if fst kv = k then snd kv else counter_get c k)"

definition counter_incr :: "int \<Rightarrow> counter \<Rightarrow> counter" where
  "counter_incr k c = dict_set k (counter_get c k + 1) c"

subsection \<open>Grouping by week\<close>

text \<open>
  \<^verbatim>\<open>df.groupby(['Week', 'Year'])\<close>: pandas sorts the group keys (\<^verbatim>\<open>sort=True\<close> is the
  default), here the pairs \<^verbatim>\<open>(week, year)\<close> in lexicographic order, and each group keeps
  its rows in the order of the data frame.
\<close>

definition week_key :: "candle \<Rightarrow> int \<times> int" where
  "week_key r = (Week r, Year r)"

definition group_keys :: "dataframe \<Rightarrow> (int \<times> int) list" where
  "group_keys df = sort (remdups (map week_key df))"

definition groupby :: "dataframe \<Rightarrow> ((int \<times> int) \<times> dataframe) list" where
  "groupby df = map (\<lambda>k. (k, filter (\<lambda>r. week_key r = k) df)) (group_keys df)"

text \<open>A \<^verbatim>\<open>for\<close> loop whose body may raise, threading the loop's variables.\<close>

fun for_each :: "('s \<Rightarrow> 'a \<Rightarrow> py_exception + 's) \<Rightarrow> 'a list \<Rightarrow> 's \<Rightarrow> py_exception + 's" where
  "for_each body [] s = Inr s"
| "for_each body (x # xs) s = and_then (body s x) (for_each body xs)"

section \<open>analyze\_monday\_ranges.py\<close>

text \<open>
  The loop variables of \<^verbatim>\<open>analyze_monday_ranges\<close>, in the order of the tuple it returns:
  \<^verbatim>\<open>(total_mondays, monday_highs_taken, monday_lows_taken, both_broken, day_high_break,
  day_low_break)\<close>.
\<close>

type_synonym ranges_result = "int \<times> int \<times> int \<times> int \<times> counter \<times> counter"

definition ranges_body :: "ranges_result \<Rightarrow> (int \<times> int) \<times> dataframe \<Rightarrow> py_exception + ranges_result" where
  "ranges_body st g =
    (case st of (total_mondays, monday_highs_taken, monday_lows_taken, both_broken,
                 day_high_break, day_low_break) \<Rightarrow>
     case g of ((week, year), week_data) \<Rightarrow>
      let monday_data = filter (\<lambda>r. DayOfWeek r = 0) week_data in
      if length monday_data = 0 then Inr st
      else
        let total_mondays = total_mondays + 1 in
        and_then (iloc0 (map High monday_data)) (\<lambda>monday_high.
        and_then (iloc0 (map Low monday_data)) (\<lambda>monday_low.
        let rest_of_week = filter (\<lambda>r. DayOfWeek r \<in> set [1, 2, 3, 4]) week_data;
            high_break_days = filter (\<lambda>r. High r > monday_high) rest_of_week;
            high_broken = (high_break_days \<noteq> [])
        in
        and_then
          (if high_broken then
             and_then (iloc0 (map DayOfWeek high_break_days)) (\<lambda>first_break_day.
               Inr (monday_highs_taken + 1, counter_incr first_break_day day_high_break))
           else Inr (monday_highs_taken, day_high_break))
          (\<lambda>(monday_highs_taken, day_high_break).
        let low_break_days = filter (\<lambda>r. Low r < monday_low) rest_of_week;
            low_broken = (low_break_days \<noteq> [])
        in
        and_then
          (if low_broken then
             and_then (iloc0 (map DayOfWeek low_break_days)) (\<lambda>first_break_day.
               Inr (monday_lows_taken + 1, counter_incr first_break_day day_low_break))
           else Inr (monday_lows_taken, day_low_break))
          (\<lambda>(monday_lows_taken, day_low_break).
        let both_broken = (if high_broken \<and> low_broken then both_broken + 1 else both_broken)
        in Inr (total_mondays, monday_highs_taken, monday_lows_taken, both_broken,
                day_high_break, day_low_break))))))"

definition analyze_monday_ranges :: "dataframe \<Rightarrow> py_exception + ranges_result" where
  "analyze_monday_ranges df = for_each ranges_body (groupby df) (0, 0, 0, 0, [], [])"

text \<open>
  \<^verbatim>\<open>calculate_probabilities\<close>. The name table of the source and the two dictionary
  comprehensions over \<^verbatim>\<open>day_high_break.items()\<close> and \<^verbatim>\<open>day_low_break.items()\<close>: for each
  item the key \<^verbatim>\<open>day_names[day]\<close> is evaluated first (\<^verbatim>\<open>KeyError\<close> for a day that is not in
  the table), then the value, and the pair is stored in the new dictionary.
\<close>

definition day_names :: "(int \<times> string) list" where
  "day_names = [(1, ''Tuesday''), (2, ''Wednesday''), (3, ''Thursday''), (4, ''Friday'')]"

fun day_probs :: "int \<Rightarrow> (int \<times> int) list \<Rightarrow> (string \<times> real) list \<Rightarrow> py_exception + (string \<times> real) list" where
  "day_probs taken [] acc = Inr acc"
| "day_probs taken (item # items) acc =
     (case item of (day, cnt) \<Rightarrow>
       and_then (dict_get day_names day) (\<lambda>name.
       and_then (if taken > 0 then py_div cnt taken else Inr 0) (\<lambda>prob.
         day_probs taken items (dict_set name prob acc))))"

definition calculate_probabilities ::
  "int \<Rightarrow> int \<Rightarrow> int \<Rightarrow> int \<Rightarrow> counter \<Rightarrow> counter \<Rightarrow>
   py_exception + (real \<times> real \<times> (string \<times> real) list \<times> (string \<times> real) list)" where
  "calculate_probabilities total_mondays monday_highs_taken monday_lows_taken both_broken
      day_high_break day_low_break =
     and_then (if total_mondays > 0 then py_div monday_highs_taken total_mondays else Inr 0)
       (\<lambda>high_break_prob.
     and_then (if total_mondays > 0 then py_div monday_lows_taken total_mondays else Inr 0)
       (\<lambda>low_break_prob.
     and_then (day_probs monday_highs_taken day_high_break []) (\<lambda>day_high_probs.
     and_then (day_probs monday_lows_taken day_low_break []) (\<lambda>day_low_probs.
       Inr (high_break_prob, low_break_prob, day_high_probs, day_low_probs)))))"

text \<open>
  The figure \<^verbatim>\<open>either_break_prob\<close> that \<^verbatim>\<open>print_results\<close> computes and prints (the rest
  of \<^verbatim>\<open>print_results\<close> formats values it is given).
\<close>

definition either_break_prob :: "int \<Rightarrow> int \<Rightarrow> int \<Rightarrow> int \<Rightarrow> py_exception + real" where
  "either_break_prob total_mondays monday_highs_taken monday_lows_taken both_broken =
     (if total_mondays > 0
      then py_div (monday_highs_taken + monday_lows_taken - both_broken) total_mondays
      else Inr 0)"

text \<open>
  \<^verbatim>\<open>main\<close> of analyze\_monday\_ranges.py on a loaded data frame: the probabilities it
  reports, \<^verbatim>\<open>(high_break_prob, low_break_prob, day_high_probs, day_low_probs)\<close> and
  \<^verbatim>\<open>either_break_prob\<close>.
\<close>

definition ranges_main ::
  "dataframe \<Rightarrow> py_exception + ((real \<times> real \<times> (string \<times> real) list \<times> (string \<times> real) list) \<times> real)" where
  "ranges_main df =
     and_then (analyze_monday_ranges df)
       (\<lambda>(total_mondays, monday_highs_taken, monday_lows_taken, both_broken,
          day_high_break, day_low_break).
     and_then (calculate_probabilities total_mondays monday_highs_taken monday_lows_taken
                 both_broken day_high_break day_low_break) (\<lambda>probs.
     and_then (either_break_prob total_mondays monday_highs_taken monday_lows_taken both_broken)
       (\<lambda>either. Inr (probs, either))))"

section \<open>monday\_partial\_breaks.py\<close>

text \<open>The dictionary \<^verbatim>\<open>week_info\<close> stored for each analysed week.\<close>

record week_info =
  info_Date :: int
  info_Week :: int
  info_Year :: int
  Monday_High :: real
  Monday_Low :: real
  High_Break_Day :: "int option"
  Low_Break_Day :: "int option"

text \<open>
  The loop variables of \<^verbatim>\<open>analyze_partial_breaks\<close>, in the order of the tuple it returns:
  \<^verbatim>\<open>(only_high_broken, only_low_broken, neither_broken, both_broken, total_mondays)\<close>.
\<close>

type_synonym partial_result =
  "week_info list \<times> week_info list \<times> week_info list \<times> week_info list \<times> int"

definition partial_body :: "partial_result \<Rightarrow> (int \<times> int) \<times> dataframe \<Rightarrow> py_exception + partial_result" where
  "partial_body st g =
    (case st of (only_high_broken, only_low_broken, neither_broken, both_broken, total_mondays) \<Rightarrow>
     case g of ((week, year), week_data) \<Rightarrow>
      let monday_data = filter (\<lambda>r. DayOfWeek r = 0) week_data in
      if length monday_data = 0 then Inr st
      else
        let total_mondays = total_mondays + 1 in
        and_then (iloc0 (map High monday_data)) (\<lambda>monday_high.
        and_then (iloc0 (map Low monday_data)) (\<lambda>monday_low.
        and_then (iloc0 (map Date monday_data)) (\<lambda>monday_date.
        let rest_of_week = filter (\<lambda>r. DayOfWeek r \<in> set [1, 2, 3, 4]) week_data;
            high_break_days = filter (\<lambda>r. High r > monday_high) rest_of_week;
            high_broken = (high_break_days \<noteq> []);
            low_break_days = filter (\<lambda>r. Low r < monday_low) rest_of_week;
            low_broken = (low_break_days \<noteq> [])
        in
        and_then
          (if high_broken
           then and_then (iloc0 (map DayOfWeek high_break_days)) (\<lambda>d. Inr (Some d))
           else Inr None) (\<lambda>high_break_day.
        and_then
          (if low_broken
           then and_then (iloc0 (map DayOfWeek low_break_days)) (\<lambda>d. Inr (Some d))
           else Inr None) (\<lambda>low_break_day.
        let week_info = \<lparr>info_Date = monday_date, info_Week = week, info_Year = year,
                          Monday_High = monday_high, Monday_Low = monday_low,
                          High_Break_Day = high_break_day, Low_Break_Day = low_break_day\<rparr>
        in
        if high_broken \<and> \<not> low_broken then
          Inr (only_high_broken @ [week_info], only_low_broken, neither_broken, both_broken,
               total_mondays)
        else if low_broken \<and> \<not> high_broken then
          Inr (only_high_broken, only_low_broken @ [week_info], neither_broken, both_broken,
               total_mondays)
        else if \<not> high_broken \<and> \<not> low_broken then
          Inr (only_high_broken, only_low_broken, neither_broken @ [week_info], both_broken,
               total_mondays)
        else
          Inr (only_high_broken, only_low_broken, neither_broken, both_broken @ [week_info],
               total_mondays)))))))"

definition analyze_partial_breaks :: "dataframe \<Rightarrow> py_exception + partial_result" where
  "analyze_partial_breaks df = for_each partial_body (groupby df) ([], [], [], [], 0)"

text \<open>
  \<^verbatim>\<open>create_excel_report\<close> of monday\_partial\_breaks.py: the two percentages it computes
  for the cells A8 and A9 (the other cells hold values it is given). An exception is
  logged and raised again.
\<close>

definition create_excel_report ::
  "week_info list \<Rightarrow> week_info list \<Rightarrow> week_info list \<Rightarrow> week_info list \<Rightarrow> int \<Rightarrow>
   py_exception + (real \<times> real)" where
  "create_excel_report only_high_broken only_low_broken neither_broken both_broken total_mondays =
     and_then (py_div (int (length only_high_broken) + int (length only_low_broken)
                        + int (length neither_broken)) total_mondays) (\<lambda>incomplete.
     and_then (py_div (int (length both_broken)) total_mondays) (\<lambda>both.
       Inr (incomplete, both)))"

text \<open>\<^verbatim>\<open>main\<close> of monday\_partial\_breaks.py on a loaded data frame.\<close>

definition partial_main :: "dataframe \<Rightarrow> py_exception + (real \<times> real)" where
  "partial_main df =
     and_then (analyze_partial_breaks df)
       (\<lambda>(only_high_broken, only_low_broken, neither_broken, both_broken, total_mondays).
          create_excel_report only_high_broken only_low_broken neither_broken both_broken
            total_mondays)"

section \<open>The two loops, week by week\<close>

text \<open>
  Both analysis functions classify a week group in the same way. The following
  definitions name the result of one pass through the loop body, so that the loops can
  be described by what they do to the list of groups: \<open>week_outcome\<close> is the
  \<^verbatim>\<open>week_info\<close> of a group (\<open>None\<close> for a group that the loop skips), and
  \<open>partial_add\<close> and \<open>ranges_add\<close> are the updates of the loop variables. The lemmas
  \<open>partial_body_eq\<close> and \<open>ranges_body_eq\<close> prove that the loop bodies compute exactly
  these, without raising.
\<close>

definition first_day :: "dataframe \<Rightarrow> int option" where
  "first_day rs = (case rs of [] \<Rightarrow> None | r # _ \<Rightarrow> Some (DayOfWeek r))"

definition candidates :: "dataframe \<Rightarrow> dataframe" where
  "candidates week_data = filter (\<lambda>r. DayOfWeek r \<in> set [1, 2, 3, 4]) week_data"

definition week_outcome :: "(int \<times> int) \<times> dataframe \<Rightarrow> week_info option" where
  "week_outcome g =
     (case filter (\<lambda>r. DayOfWeek r = 0) (snd g) of
        [] \<Rightarrow> None
      | m # ms \<Rightarrow>
          Some \<lparr>info_Date = Date m, info_Week = fst (fst g), info_Year = snd (fst g),
                Monday_High = High m, Monday_Low = Low m,
                High_Break_Day = first_day (filter (\<lambda>r. High r > High m) (candidates (snd g))),
                Low_Break_Day = first_day (filter (\<lambda>r. Low r < Low m) (candidates (snd g)))\<rparr>)"

definition outcomes :: "dataframe \<Rightarrow> week_info list" where
  "outcomes df = List.map_filter week_outcome (groupby df)"

definition high_broken :: "week_info \<Rightarrow> bool" where
  "high_broken w = (High_Break_Day w \<noteq> None)"

definition low_broken :: "week_info \<Rightarrow> bool" where
  "low_broken w = (Low_Break_Day w \<noteq> None)"

definition partial_add :: "week_info \<Rightarrow> partial_result \<Rightarrow> partial_result" where
  "partial_add w st =
     (case st of (oh, ol, nb, bb, t) \<Rightarrow>
        if high_broken w \<and> \<not> low_broken w then (oh @ [w], ol, nb, bb, t + 1)
        else if low_broken w \<and> \<not> high_broken w then (oh, ol @ [w], nb, bb, t + 1)
        else if \<not> high_broken w \<and> \<not> low_broken w then (oh, ol, nb @ [w], bb, t + 1)
        else (oh, ol, nb, bb @ [w], t + 1))"

definition tally :: "int option \<Rightarrow> counter \<Rightarrow> counter" where
  "tally d c = (case d of None \<Rightarrow> c | Some k \<Rightarrow> counter_incr k c)"

definition ranges_add :: "week_info \<Rightarrow> ranges_result \<Rightarrow> ranges_result" where
  "ranges_add w st =
     (case st of (t, h, l, b, dh, dl) \<Rightarrow>
        (t + 1, (if high_broken w then h + 1 else h), (if low_broken w then l + 1 else l),
         (if high_broken w \<and> low_broken w then b + 1 else b),
         tally (High_Break_Day w) dh, tally (Low_Break_Day w) dl))"

text \<open>
  The key of a stored week, and the eligible weeks of a data frame: the group keys, in
  the order of the loop, of the weeks that hold a Monday row.
\<close>

definition info_key :: "week_info \<Rightarrow> int \<times> int" where
  "info_key w = (info_Week w, info_Year w)"

definition eligible_weeks :: "dataframe \<Rightarrow> (int \<times> int) list" where
  "eligible_weeks df =
     filter (\<lambda>k. \<exists>r \<in> set df. week_key r = k \<and> DayOfWeek r = 0) (group_keys df)"

text \<open>
  The rows of week \<open>k\<close> on Tuesday to Friday whose high is above a Monday high, and
  those whose low is below a Monday low, in the order of the data frame.
\<close>

definition high_break_candles :: "dataframe \<Rightarrow> int \<times> int \<Rightarrow> real \<Rightarrow> dataframe" where
  "high_break_candles df k monday_high =
     filter (\<lambda>r. week_key r = k \<and> DayOfWeek r \<in> set [1, 2, 3, 4] \<and> High r > monday_high) df"

definition low_break_candles :: "dataframe \<Rightarrow> int \<times> int \<Rightarrow> real \<Rightarrow> dataframe" where
  "low_break_candles df k monday_low =
     filter (\<lambda>r. week_key r = k \<and> DayOfWeek r \<in> set [1, 2, 3, 4] \<and> Low r < monday_low) df"

text \<open>
  What a stored week says about its Monday, and the relation between two stored weeks
  that agree on it and on which of the two levels was broken.
\<close>

definition monday_fields :: "week_info \<Rightarrow> int \<times> int \<times> int \<times> real \<times> real" where
  "monday_fields w = (info_Date w, info_Week w, info_Year w, Monday_High w, Monday_Low w)"

definition same_week :: "week_info \<Rightarrow> week_info \<Rightarrow> bool" where
  "same_week w' w \<longleftrightarrow>
     monday_fields w' = monday_fields w \<and> high_broken w' = high_broken w \<and>
     low_broken w' = low_broken w"

section \<open>Concrete inputs\<close>

text \<open>
  Week 1 of 2024 (Monday 2024-01-01 is day 19723): Monday with high 10 and low 5,
  Tuesday with high 12, Wednesday with low 3.
\<close>

definition monday_2024_01_01 :: candle where
  "monday_2024_01_01 = \<lparr>Date = 19723, Open = 7, High = 10, Low = 5, Close = 8,
     DayOfWeek = 0, Week = 1, Year = 2024\<rparr>"

definition tuesday_2024_01_02 :: candle where
  "tuesday_2024_01_02 = \<lparr>Date = 19724, Open = 8, High = 12, Low = 6, Close = 9,
     DayOfWeek = 1, Week = 1, Year = 2024\<rparr>"

definition wednesday_2024_01_03 :: candle where
  "wednesday_2024_01_03 = \<lparr>Date = 19725, Open = 9, High = 9, Low = 3, Close = 4,
     DayOfWeek = 2, Week = 1, Year = 2024\<rparr>"

definition week_both :: dataframe where
  "week_both = [monday_2024_01_01, tuesday_2024_01_02, wednesday_2024_01_03]"

text \<open>
  A Tuesday of week 2 of 2024, a week without a Monday row; and the Monday of week 2 of
  2023 (2023-01-09 is day 19366), which comes before the Monday of week 1 of 2024.
\<close>

definition tuesday_2024_01_09 :: candle where
  "tuesday_2024_01_09 = \<lparr>Date = 19731, Open = 8, High = 20, Low = 1, Close = 9,
     DayOfWeek = 1, Week = 2, Year = 2024\<rparr>"

definition monday_2023_01_09 :: candle where
  "monday_2023_01_09 = \<lparr>Date = 19366, Open = 7, High = 10, Low = 5, Close = 8,
     DayOfWeek = 0, Week = 2, Year = 2023\<rparr>"

definition two_years :: dataframe where
  "two_years = [monday_2023_01_09, monday_2024_01_01]"

text \<open>
  Week 1 of 2024 with two days above the Monday high, Tuesday (12) and Wednesday (13),
  in the order of the dates and with the two days exchanged.
\<close>

definition wednesday_high_2024_01_03 :: candle where
  "wednesday_high_2024_01_03 = \<lparr>Date = 19725, Open = 9, High = 13, Low = 6, Close = 12,
     DayOfWeek = 2, Week = 1, Year = 2024\<rparr>"

definition tue_then_wed :: dataframe where
  "tue_then_wed = [monday_2024_01_01, tuesday_2024_01_02, wednesday_high_2024_01_03]"

definition wed_then_tue :: dataframe where
  "wed_then_tue = [monday_2024_01_01, wednesday_high_2024_01_03, tuesday_2024_01_02]"

section \<open>Properties of the loops\<close>

lemma first_day_eq_None [simp]: "first_day rs = None \<longleftrightarrow> rs = []"
  by (simp add: first_day_def split: list.splits)

lemma partial_body_eq:
  "partial_body st g = Inr (case week_outcome g of None \<Rightarrow> st | Some w \<Rightarrow> partial_add w st)"
proof -
  obtain oh ol nb bb t where st: "st = (oh, ol, nb, bb, t)"
    by (cases st) auto
  obtain week year week_data where g: "g = ((week, year), week_data)"
    by (cases g) auto
  show ?thesis
  proof (cases "filter (\<lambda>r. DayOfWeek r = 0) week_data")
    case Nil
    then show ?thesis
      unfolding st g by (simp add: partial_body_def week_outcome_def)
  next
    case (Cons m ms)
    then show ?thesis
      unfolding st g
      by (simp add: partial_body_def week_outcome_def partial_add_def and_then_def
          high_broken_def low_broken_def candidates_def first_day_def Let_def
          split: list.splits)
  qed
qed

lemma ranges_body_eq:
  "ranges_body st g = Inr (case week_outcome g of None \<Rightarrow> st | Some w \<Rightarrow> ranges_add w st)"
proof -
  obtain t h l b dh dl where st: "st = (t, h, l, b, dh, dl)"
    by (cases st) auto
  obtain week year week_data where g: "g = ((week, year), week_data)"
    by (cases g) auto
  show ?thesis
  proof (cases "filter (\<lambda>r. DayOfWeek r = 0) week_data")
    case Nil
    then show ?thesis
      unfolding st g by (simp add: ranges_body_def week_outcome_def)
  next
    case (Cons m ms)
    then show ?thesis
      unfolding st g
      by (auto simp add: ranges_body_def week_outcome_def ranges_add_def and_then_def tally_def
          high_broken_def low_broken_def candidates_def first_day_def Let_def
          split: list.splits)
  qed
qed

lemma for_each_partial:
  "for_each partial_body gs st =
     Inr (foldl (\<lambda>s w. partial_add w s) st (List.map_filter week_outcome gs))"
proof (induction gs arbitrary: st)
  case Nil
  show ?case by simp
next
  case (Cons g gs)
  show ?case
    by (simp add: partial_body_eq[of st g] and_then_def Cons.IH split: option.splits)
qed

lemma for_each_ranges:
  "for_each ranges_body gs st =
     Inr (foldl (\<lambda>s w. ranges_add w s) st (List.map_filter week_outcome gs))"
proof (induction gs arbitrary: st)
  case Nil
  show ?case by simp
next
  case (Cons g gs)
  show ?case
    by (simp add: ranges_body_eq[of st g] and_then_def Cons.IH split: option.splits)
qed

lemma foldl_partial_add:
  "foldl (\<lambda>s w. partial_add w s) (oh, ol, nb, bb, t) ws =
     (oh @ filter (\<lambda>w. high_broken w \<and> \<not> low_broken w) ws,
      ol @ filter (\<lambda>w. low_broken w \<and> \<not> high_broken w) ws,
      nb @ filter (\<lambda>w. \<not> high_broken w \<and> \<not> low_broken w) ws,
      bb @ filter (\<lambda>w. high_broken w \<and> low_broken w) ws,
      t + int (length ws))"
  by (induction ws arbitrary: oh ol nb bb t) (auto simp: partial_add_def)

lemma foldl_ranges_add:
  "foldl (\<lambda>s w. ranges_add w s) (t, h, l, b, dh, dl) ws =
     (t + int (length ws),
      h + int (length (filter high_broken ws)),
      l + int (length (filter low_broken ws)),
      b + int (length (filter (\<lambda>w. high_broken w \<and> low_broken w) ws)),
      foldl (\<lambda>c w. tally (High_Break_Day w) c) dh ws,
      foldl (\<lambda>c w. tally (Low_Break_Day w) c) dl ws)"
  by (induction ws arbitrary: t h l b dh dl) (auto simp: ranges_add_def)

lemma analyze_partial_breaks_eq:
  "analyze_partial_breaks df =
     Inr (filter (\<lambda>w. high_broken w \<and> \<not> low_broken w) (outcomes df),
          filter (\<lambda>w. low_broken w \<and> \<not> high_broken w) (outcomes df),
          filter (\<lambda>w. \<not> high_broken w \<and> \<not> low_broken w) (outcomes df),
          filter (\<lambda>w. high_broken w \<and> low_broken w) (outcomes df),
          int (length (outcomes df)))"
  by (simp add: analyze_partial_breaks_def for_each_partial foldl_partial_add outcomes_def)

lemma analyze_monday_ranges_eq:
  "analyze_monday_ranges df =
     Inr (int (length (outcomes df)),
          int (length (filter high_broken (outcomes df))),
          int (length (filter low_broken (outcomes df))),
          int (length (filter (\<lambda>w. high_broken w \<and> low_broken w) (outcomes df))),
          foldl (\<lambda>c w. tally (High_Break_Day w) c) [] (outcomes df),
          foldl (\<lambda>c w. tally (Low_Break_Day w) c) [] (outcomes df))"
  by (simp add: analyze_monday_ranges_def for_each_ranges foldl_ranges_add outcomes_def)

lemma group_keys_sorted: "sorted_wrt (<) (group_keys df)"
  by (simp add: group_keys_def strict_sorted_iff)

lemma set_group_keys: "set (group_keys df) = week_key ` set df"
  by (simp add: group_keys_def)

lemma week_outcome_None:
  "week_outcome (k, rows) = None \<longleftrightarrow> \<not> (\<exists>r \<in> set rows. DayOfWeek r = 0)"
proof -
  have "filter (\<lambda>r. DayOfWeek r = 0) rows = [] \<longleftrightarrow> \<not> (\<exists>r \<in> set rows. DayOfWeek r = 0)"
    by (simp add: filter_empty_conv)
  then show ?thesis
    by (cases "filter (\<lambda>r. DayOfWeek r = 0) rows") (simp_all add: week_outcome_def)
qed

lemma week_outcome_key:
  "week_outcome (k, rows) = Some w \<Longrightarrow> info_key w = k"
  by (auto simp: week_outcome_def info_key_def split: list.splits)

lemma outcomes_keys_aux:
  "map info_key (List.map_filter week_outcome (map (\<lambda>k. (k, filter (\<lambda>r. week_key r = k) df)) ks)) =
   filter (\<lambda>k. \<exists>r \<in> set df. week_key r = k \<and> DayOfWeek r = 0) ks"
proof (induction ks)
  case Nil
  show ?case by (simp add: List.map_filter_simps)
next
  case (Cons k ks)
  show ?case
  proof (cases "week_outcome (k, filter (\<lambda>r. week_key r = k) df)")
    case None
    then have "\<not> (\<exists>r \<in> set df. week_key r = k \<and> DayOfWeek r = 0)"
      by (auto simp: week_outcome_None)
    with None Cons.IH show ?thesis
      by (simp add: List.map_filter_simps)
  next
    case (Some w)
    then have "\<exists>r \<in> set df. week_key r = k \<and> DayOfWeek r = 0"
      using week_outcome_None[of k "filter (\<lambda>r. week_key r = k) df"] by auto
    moreover have "info_key w = k"
      using Some by (rule week_outcome_key)
    ultimately show ?thesis
      using Some Cons.IH by (simp add: List.map_filter_simps)
  qed
qed

lemma outcomes_keys: "map info_key (outcomes df) = eligible_weeks df"
  by (simp add: outcomes_def groupby_def eligible_weeks_def outcomes_keys_aux)

lemma eligible_weeks_sorted: "sorted_wrt (<) (eligible_weeks df)"
  unfolding eligible_weeks_def by (rule sorted_wrt_filter[OF group_keys_sorted])

lemma eligible_weeks_distinct: "distinct (eligible_weeks df)"
  using eligible_weeks_sorted[of df] strict_sorted_iff by blast

lemma mset_four_filters:
  "mset (filter (\<lambda>w. P w \<and> \<not> Q w) ws @ filter (\<lambda>w. Q w \<and> \<not> P w) ws
         @ filter (\<lambda>w. \<not> P w \<and> \<not> Q w) ws @ filter (\<lambda>w. P w \<and> Q w) ws) = mset ws"
  by (induction ws) auto

lemma length_filter_split:
  "length (filter P ws) = length (filter (\<lambda>w. P w \<and> \<not> Q w) ws) + length (filter (\<lambda>w. P w \<and> Q w) ws)"
  by (induction ws) auto

subsection \<open>Counters and the day probabilities\<close>

lemma counter_incr_Nil: "counter_incr k [] = [(k, 1)]"
  by (simp add: counter_incr_def)

lemma counter_incr_Cons:
  "counter_incr k (kv # c) =
     (if fst kv = k then (k, snd kv + 1) # c else kv # counter_incr k c)"
  by (simp add: counter_incr_def)

lemma sum_counter_incr: "sum_list (map snd (counter_incr k c)) = sum_list (map snd c) + 1"
  by (induction c) (simp_all add: counter_incr_Nil counter_incr_Cons)

lemma keys_counter_incr: "fst ` set (counter_incr k c) = insert k (fst ` set c)"
  by (induction c) (auto simp: counter_incr_Nil counter_incr_Cons)

lemma distinct_counter_incr:
  "distinct (map fst c) \<Longrightarrow> distinct (map fst (counter_incr k c))"
proof (induction c)
  case Nil
  show ?case by (simp add: counter_incr_Nil)
next
  case (Cons kv c)
  then show ?case
    using keys_counter_incr[of k c] by (auto simp: counter_incr_Cons)
qed

lemma counter_get_incr:
  "counter_get (counter_incr k c) j = counter_get c j + (if j = k then 1 else 0)"
  by (induction c) (auto simp: counter_incr_Nil counter_incr_Cons)

lemma sum_tally:
  "sum_list (map snd (foldl (\<lambda>c w. tally (f w) c) c ws)) =
     sum_list (map snd c) + int (length (filter (\<lambda>w. f w \<noteq> None) ws))"
  by (induction ws arbitrary: c) (auto simp: tally_def sum_counter_incr split: option.splits)

lemma keys_tally:
  "fst ` set (foldl (\<lambda>c w. tally (f w) c) c ws) = fst ` set c \<union> {d. Some d \<in> f ` set ws}"
proof (induction ws arbitrary: c)
  case Nil
  show ?case by simp
next
  case (Cons w ws)
  show ?case
  proof (cases "f w")
    case None
    then show ?thesis
      using Cons.IH[of c] by (auto simp: tally_def)
  next
    case (Some d)
    then show ?thesis
      using Cons.IH[of "counter_incr d c"] keys_counter_incr[of d c]
      by (auto simp: tally_def image_iff)
  qed
qed

lemma distinct_tally:
  "distinct (map fst c) \<Longrightarrow> distinct (map fst (foldl (\<lambda>c w. tally (f w) c) c ws))"
  by (induction ws arbitrary: c) (auto simp: tally_def distinct_counter_incr split: option.splits)

lemma counter_get_tally:
  "counter_get (foldl (\<lambda>c w. tally (f w) c) c ws) d =
     counter_get c d + int (length (filter (\<lambda>w. f w = Some d) ws))"
  by (induction ws arbitrary: c) (auto simp: tally_def counter_get_incr split: option.splits)

lemma first_day_candidates:
  "first_day (filter P (candidates rows)) = Some d \<Longrightarrow> d \<in> {1, 2, 3, 4}"
proof -
  assume a: "first_day (filter P (candidates rows)) = Some d"
  then obtain r rs where rs: "filter P (candidates rows) = r # rs" and d: "d = DayOfWeek r"
    by (auto simp: first_day_def split: list.splits)
  have "r \<in> set (filter P (candidates rows))"
    by (simp add: rs)
  then have "DayOfWeek r \<in> set [1, 2, 3, 4]"
    by (simp add: candidates_def)
  with d show ?thesis by simp
qed

lemma week_outcome_days:
  assumes "week_outcome g = Some w"
  shows "(\<forall>d. High_Break_Day w = Some d \<longrightarrow> d \<in> {1, 2, 3, 4}) \<and>
         (\<forall>d. Low_Break_Day w = Some d \<longrightarrow> d \<in> {1, 2, 3, 4})"
  using assms
  by (auto simp: week_outcome_def split: list.splits dest!: first_day_candidates)

lemma in_map_filterD:
  "y \<in> set (List.map_filter f xs) \<Longrightarrow> \<exists>x \<in> set xs. f x = Some y"
  by (induction xs) (auto split: option.splits)

lemma outcomes_days:
  assumes "w \<in> set (outcomes df)"
  shows "(\<forall>d. High_Break_Day w = Some d \<longrightarrow> d \<in> {1, 2, 3, 4}) \<and>
         (\<forall>d. Low_Break_Day w = Some d \<longrightarrow> d \<in> {1, 2, 3, 4})"
proof -
  from assms obtain g where "week_outcome g = Some w"
    unfolding outcomes_def by (blast dest: in_map_filterD)
  then show ?thesis by (rule week_outcome_days)
qed

lemma dict_set_fresh: "k \<notin> fst ` set d \<Longrightarrow> dict_set k v d = d @ [(k, v)]"
  by (induction d) auto

lemma day_names_get:
  "d \<in> {1, 2, 3, 4} \<Longrightarrow> \<exists>n. dict_get day_names d = Inr n"
  by (auto simp: day_names_def)

lemma day_names_inj:
  "dict_get day_names d = Inr n \<Longrightarrow> dict_get day_names d' = Inr n \<Longrightarrow> d = d'"
  by (auto simp: day_names_def split: if_splits)

lemma day_probs_returns:
  "fst ` set items \<subseteq> {1, 2, 3, 4} \<Longrightarrow> \<exists>res. day_probs taken items acc = Inr res"
proof (induction items arbitrary: acc)
  case Nil
  show ?case by simp
next
  case (Cons item items)
  obtain d c where item: "item = (d, c)" by (cases item)
  with Cons.prems have "d \<in> {1, 2, 3, 4}" by simp
  then obtain n where n: "dict_get day_names d = Inr n"
    using day_names_get by blast
  from Cons.prems have "fst ` set items \<subseteq> {1, 2, 3, 4}" by simp
  from Cons.IH[OF this] show ?case
    by (simp add: item n and_then_def py_div_def)
qed

lemma day_probs_sum:
  assumes "day_probs taken items acc = Inr res"
    and "distinct (map fst items)"
    and "\<forall>d \<in> fst ` set items. \<forall>n. dict_get day_names d = Inr n \<longrightarrow> n \<notin> fst ` set acc"
    and "taken > 0"
  shows "sum_list (map snd res) =
           sum_list (map snd acc) + real_of_int (sum_list (map snd items)) / real_of_int taken"
  using assms
proof (induction items arbitrary: acc)
  case Nil
  then show ?case by simp
next
  case (Cons item items)
  obtain d c where item: "item = (d, c)" by (cases item)
  from Cons.prems(1) obtain n where n: "dict_get day_names d = Inr n"
    by (cases "dict_get day_names d") (auto simp: item and_then_def)
  let ?p = "real_of_int c / real_of_int taken"
  from Cons.prems(3) n have fresh: "n \<notin> fst ` set acc"
    by (auto simp: item)
  then have upd: "dict_set n ?p acc = acc @ [(n, ?p)]"
    by (rule dict_set_fresh)
  from Cons.prems(1,4) have rest: "day_probs taken items (acc @ [(n, ?p)]) = Inr res"
    by (simp add: item n and_then_def py_div_def upd)
  have dist: "distinct (map fst items)" and dnot: "d \<notin> fst ` set items"
    using Cons.prems(2) by (auto simp: item)
  have fresh': "\<forall>d' \<in> fst ` set items. \<forall>n'. dict_get day_names d' = Inr n' \<longrightarrow>
      n' \<notin> fst ` set (acc @ [(n, ?p)])"
  proof (intro ballI allI impI)
    fix d' n'
    assume d': "d' \<in> fst ` set items" and n': "dict_get day_names d' = Inr n'"
    have "n' \<notin> fst ` set acc"
      using Cons.prems(3) d' n' by (auto simp: item)
    moreover have "n' \<noteq> n"
    proof
      assume "n' = n"
      with n n' have "d' = d" using day_names_inj by blast
      with d' dnot show False by simp
    qed
    ultimately show "n' \<notin> fst ` set (acc @ [(n, ?p)])" by auto
  qed
  from Cons.IH[OF rest dist fresh' Cons.prems(4)]
  show ?case
    by (simp add: item add_divide_distrib)
qed

lemma inclusion_exclusion_filters:
  "int (length (filter P ws)) + int (length (filter Q ws))
     - int (length (filter (\<lambda>w. P w \<and> Q w) ws))
   = int (length ws) - int (length (filter (\<lambda>w. \<not> P w \<and> \<not> Q w) ws))"
  by (induction ws) auto

lemma length_filter_high_broken:
  "length (filter (\<lambda>w. High_Break_Day w \<noteq> None) ws) = length (filter high_broken ws)"
  by (induction ws) (simp_all add: high_broken_def)

lemma length_filter_low_broken:
  "length (filter (\<lambda>w. Low_Break_Day w \<noteq> None) ws) = length (filter low_broken ws)"
  by (induction ws) (simp_all add: low_broken_def)

lemma tally_keys_high:
  "fst ` set (foldl (\<lambda>c w. tally (High_Break_Day w) c) [] (outcomes df)) \<subseteq> {1, 2, 3, 4}"
proof
  fix d
  assume "d \<in> fst ` set (foldl (\<lambda>c w. tally (High_Break_Day w) c) [] (outcomes df))"
  then have "Some d \<in> High_Break_Day ` set (outcomes df)"
    by (simp add: keys_tally)
  then obtain w where "w \<in> set (outcomes df)" and "High_Break_Day w = Some d"
    by force
  then show "d \<in> {1, 2, 3, 4}"
    using outcomes_days by blast
qed

lemma tally_keys_low:
  "fst ` set (foldl (\<lambda>c w. tally (Low_Break_Day w) c) [] (outcomes df)) \<subseteq> {1, 2, 3, 4}"
proof
  fix d
  assume "d \<in> fst ` set (foldl (\<lambda>c w. tally (Low_Break_Day w) c) [] (outcomes df))"
  then have "Some d \<in> Low_Break_Day ` set (outcomes df)"
    by (simp add: keys_tally)
  then obtain w where "w \<in> set (outcomes df)" and "Low_Break_Day w = Some d"
    by force
  then show "d \<in> {1, 2, 3, 4}"
    using outcomes_days by blast
qed

lemma calculate_probabilities_returns:
  assumes "fst ` set dh \<subseteq> {1, 2, 3, 4}" and "fst ` set dl \<subseteq> {1, 2, 3, 4}"
  shows "\<exists>dhp dlp.
     day_probs h dh [] = Inr dhp \<and> day_probs l dl [] = Inr dlp \<and>
     calculate_probabilities t h l b dh dl =
       Inr (if t > 0 then real_of_int h / real_of_int t else 0,
            if t > 0 then real_of_int l / real_of_int t else 0, dhp, dlp)"
proof -
  from day_probs_returns[OF assms(1)] obtain dhp where dhp: "day_probs h dh [] = Inr dhp"
    by blast
  from day_probs_returns[OF assms(2)] obtain dlp where dlp: "day_probs l dl [] = Inr dlp"
    by blast
  show ?thesis
    by (simp add: calculate_probabilities_def dhp dlp and_then_def py_div_def)
qed

lemma day_probs_total:
  assumes "day_probs taken items [] = Inr res"
    and "distinct (map fst items)"
    and "sum_list (map snd items) = taken"
    and "taken > 0"
  shows "sum_list (map snd res) = 1"
  using day_probs_sum[OF assms(1,2) _ assms(4)] assms(3,4) by simp

subsection \<open>Weeks without a Monday, and the order of the weeks\<close>

lemma group_keys_distinct: "distinct (group_keys df)"
  using group_keys_sorted[of df] strict_sorted_iff by blast

lemma group_keys_filter:
  "group_keys (filter (\<lambda>r. week_key r \<noteq> k) df) = filter (\<lambda>k'. k' \<noteq> k) (group_keys df)"
proof (rule sorted_distinct_set_unique)
  show "sorted (group_keys (filter (\<lambda>r. week_key r \<noteq> k) df))"
    by (simp add: group_keys_def)
  show "distinct (group_keys (filter (\<lambda>r. week_key r \<noteq> k) df))"
    by (rule group_keys_distinct)
  have "sorted_wrt (<) (filter (\<lambda>k'. k' \<noteq> k) (group_keys df))"
    by (rule sorted_wrt_filter[OF group_keys_sorted])
  then show "sorted (filter (\<lambda>k'. k' \<noteq> k) (group_keys df))"
    and "distinct (filter (\<lambda>k'. k' \<noteq> k) (group_keys df))"
    by (simp_all add: strict_sorted_iff)
  show "set (group_keys (filter (\<lambda>r. week_key r \<noteq> k) df)) =
        set (filter (\<lambda>k'. k' \<noteq> k) (group_keys df))"
    by (auto simp: set_group_keys)
qed

lemma map_filter_filter_None:
  "(\<And>x. x \<in> set xs \<Longrightarrow> \<not> P x \<Longrightarrow> f x = None) \<Longrightarrow>
     List.map_filter f (filter P xs) = List.map_filter f xs"
proof (induction xs)
  case Nil
  show ?case by simp
next
  case (Cons a xs)
  have IH: "List.map_filter f (filter P xs) = List.map_filter f xs"
    by (rule Cons.IH) (simp add: Cons.prems)
  show ?case
  proof (cases "P a")
    case True
    then show ?thesis by (simp add: IH split: option.splits)
  next
    case False
    then have "f a = None" by (simp add: Cons.prems)
    with False show ?thesis by (simp add: IH)
  qed
qed

lemma map_filter_cong_set:
  "(\<And>x. x \<in> set xs \<Longrightarrow> f x = g x) \<Longrightarrow> List.map_filter f xs = List.map_filter g xs"
  by (induction xs) (auto split: option.splits)

lemma outcomes_alt:
  "outcomes df =
     List.map_filter (\<lambda>k. week_outcome (k, filter (\<lambda>r. week_key r = k) df)) (group_keys df)"
  by (simp add: outcomes_def groupby_def List.map_filter_def comp_def filter_map)

lemma outcomes_drop_week:
  assumes "\<forall>r \<in> set df. week_key r = k \<longrightarrow> DayOfWeek r \<noteq> 0"
  shows "outcomes (filter (\<lambda>r. week_key r \<noteq> k) df) = outcomes df"
proof -
  let ?df' = "filter (\<lambda>r. week_key r \<noteq> k) df"
  let ?f = "\<lambda>k'. week_outcome (k', filter (\<lambda>r. week_key r = k') df)"
  have none: "?f k = None"
    using assms by (auto simp: week_outcome_None)
  have "outcomes ?df' =
      List.map_filter (\<lambda>k'. week_outcome (k', filter (\<lambda>r. week_key r = k') ?df'))
        (filter (\<lambda>k'. k' \<noteq> k) (group_keys df))"
    by (simp only: outcomes_alt group_keys_filter)
  also have "\<dots> = List.map_filter ?f (filter (\<lambda>k'. k' \<noteq> k) (group_keys df))"
  proof (rule map_filter_cong_set)
    fix k'
    assume "k' \<in> set (filter (\<lambda>k'. k' \<noteq> k) (group_keys df))"
    then have "k' \<noteq> k" by simp
    then have "filter (\<lambda>r. week_key r = k') ?df' = filter (\<lambda>r. week_key r = k') df"
      by (auto intro: filter_cong)
    then show "week_outcome (k', filter (\<lambda>r. week_key r = k') ?df') = ?f k'"
      by simp
  qed
  also have "\<dots> = List.map_filter ?f (group_keys df)"
    by (rule map_filter_filter_None) (simp add: none)
  also have "\<dots> = outcomes df"
    by (simp only: outcomes_alt)
  finally show ?thesis .
qed

lemma eligible_weeks_has_monday:
  "k \<in> set (eligible_weeks df) \<Longrightarrow> \<exists>r \<in> set df. week_key r = k \<and> DayOfWeek r = 0"
  by (auto simp: eligible_weeks_def)

lemma sorted_keys_filter:
  "sorted_wrt (<) (map info_key (filter P (outcomes df)))"
proof -
  have "sorted_wrt (<) (map info_key (outcomes df))"
    by (simp only: outcomes_keys eligible_weeks_sorted)
  then have "sorted_wrt (\<lambda>w w'. info_key w < info_key w') (outcomes df)"
    by (simp add: sorted_wrt_map)
  then have "sorted_wrt (\<lambda>w w'. info_key w < info_key w') (filter P (outcomes df))"
    by (rule sorted_wrt_filter)
  then show ?thesis
    by (simp add: sorted_wrt_map)
qed

subsection \<open>The first break day, and permuted data frames\<close>

lemma in_map_filterI:
  "x \<in> set xs \<Longrightarrow> f x = Some y \<Longrightarrow> y \<in> set (List.map_filter f xs)"
  by (induction xs) (auto split: option.splits)

lemma filter_key_unique:
  "distinct (map f xs) \<Longrightarrow> x \<in> set xs \<Longrightarrow> filter (\<lambda>y. f y = f x) xs = [x]"
proof (induction xs)
  case Nil
  then show ?case by simp
next
  case (Cons a xs)
  show ?case
  proof (cases "x = a")
    case True
    from Cons.prems(1) have "f a \<notin> f ` set xs" by simp
    then have "\<forall>y \<in> set xs. f y \<noteq> f a" by (metis imageI)
    then have "filter (\<lambda>y. f y = f a) xs = []"
      by (simp add: filter_empty_conv)
    with True show ?thesis by simp
  next
    case False
    with Cons.prems have x: "x \<in> set xs" and d: "distinct (map f xs)" by auto
    from Cons.prems(1) have "f a \<notin> f ` set xs" by simp
    with x have "f a \<noteq> f x" by (metis imageI)
    with Cons.IH[OF d x] show ?thesis by simp
  qed
qed

lemma first_day_earliest:
  assumes "sorted (map Date rs)" and "first_day rs = Some d"
  shows "\<exists>r \<in> set rs. DayOfWeek r = d \<and> (\<forall>r' \<in> set rs. Date r \<le> Date r')"
proof -
  from assms(2) obtain r rest where rs: "rs = r # rest" and d: "DayOfWeek r = d"
    by (auto simp: first_day_def split: list.splits)
  from assms(1) have "\<forall>r' \<in> set rest. Date r \<le> Date r'"
    by (simp add: rs)
  with rs d show ?thesis by auto
qed

lemma week_outcome_of_week:
  assumes "filter (\<lambda>r. week_key r = k \<and> DayOfWeek r = 0) df = m # ms"
  shows "week_outcome (k, filter (\<lambda>r. week_key r = k) df) =
     Some \<lparr>info_Date = Date m, info_Week = fst k, info_Year = snd k,
           Monday_High = High m, Monday_Low = Low m,
           High_Break_Day = first_day (high_break_candles df k (High m)),
           Low_Break_Day = first_day (low_break_candles df k (Low m))\<rparr>"
proof -
  have hb: "filter (\<lambda>r. High r > High m) (candidates (filter (\<lambda>r. week_key r = k) df))
      = high_break_candles df k (High m)"
    by (simp add: candidates_def high_break_candles_def conj_assoc)
  have lb: "filter (\<lambda>r. Low r < Low m) (candidates (filter (\<lambda>r. week_key r = k) df))
      = low_break_candles df k (Low m)"
    by (simp add: candidates_def low_break_candles_def conj_assoc)
  have "filter (\<lambda>r. DayOfWeek r = 0) (filter (\<lambda>r. week_key r = k) df) = m # ms"
    using assms by simp
  then show ?thesis
    by (simp only: week_outcome_def hb lb snd_conv fst_conv list.case)
qed

lemma length_filter_mset_eq:
  "mset xs = mset ys \<Longrightarrow> length (filter P xs) = length (filter P ys)"
  by (metis mset_filter size_mset)

lemma mset_categories:
  assumes "analyze_partial_breaks df = Inr (oh, ol, nb, bb, t)"
  shows "mset (oh @ ol @ nb @ bb) = mset (outcomes df)"
proof -
  from assms have "oh @ ol @ nb @ bb =
      filter (\<lambda>w. high_broken w \<and> \<not> low_broken w) (outcomes df)
       @ filter (\<lambda>w. low_broken w \<and> \<not> high_broken w) (outcomes df)
       @ filter (\<lambda>w. \<not> high_broken w \<and> \<not> low_broken w) (outcomes df)
       @ filter (\<lambda>w. high_broken w \<and> low_broken w) (outcomes df)"
    by (simp add: analyze_partial_breaks_eq)
  then show ?thesis
    by (simp only: mset_four_filters)
qed

lemma group_keys_mset:
  assumes "mset df' = mset df"
  shows "group_keys df' = group_keys df"
proof -
  have "set (map week_key df') = set (map week_key df)"
    using mset_eq_setD[OF assms] by simp
  then have "sorted_list_of_set (set (map week_key df')) = sorted_list_of_set (set (map week_key df))"
    by simp
  then show ?thesis
    by (simp only: group_keys_def sorted_list_of_set_sort_remdups)
qed

lemma short_list_mset_eq:
  assumes "mset xs = mset ys" and "length ys \<le> 1"
  shows "xs = ys"
proof (cases ys)
  case Nil
  with assms(1) show ?thesis by simp
next
  case (Cons y rest)
  with assms(2) have "ys = [y]" by simp
  with assms(1) show ?thesis by simp
qed

lemma distinct_filter_key:
  "distinct (map f xs) \<Longrightarrow> length (filter (\<lambda>x. f x = k) xs) \<le> 1"
proof (induction xs)
  case Nil
  show ?case by simp
next
  case (Cons a xs)
  show ?case
  proof (cases "f a = k")
    case True
    from Cons.prems have "f a \<notin> f ` set xs" by simp
    then have "\<forall>y \<in> set xs. f y \<noteq> k" using True by (metis imageI)
    then have "filter (\<lambda>x. f x = k) xs = []"
      by (simp add: filter_empty_conv)
    with True show ?thesis by simp
  next
    case False
    with Cons show ?thesis by simp
  qed
qed

lemma first_day_perm:
  assumes "set rows' = set rows"
  shows "first_day (filter P (candidates rows')) = None \<longleftrightarrow>
         first_day (filter P (candidates rows)) = None"
  using assms by (simp add: candidates_def filter_empty_conv)

lemma week_outcome_perm:
  assumes "mset rows' = mset rows"
    and "length (filter (\<lambda>r. DayOfWeek r = 0) rows) \<le> 1"
  shows "rel_option same_week (week_outcome (k, rows')) (week_outcome (k, rows))"
proof -
  have "mset (filter (\<lambda>r. DayOfWeek r = 0) rows') = mset (filter (\<lambda>r. DayOfWeek r = 0) rows)"
    by (simp only: mset_filter assms(1))
  then have mon: "filter (\<lambda>r. DayOfWeek r = 0) rows' = filter (\<lambda>r. DayOfWeek r = 0) rows"
    using assms(2) by (rule short_list_mset_eq)
  have sets: "set rows' = set rows"
    using assms(1) by (rule mset_eq_setD)
  show ?thesis
  proof (cases "filter (\<lambda>r. DayOfWeek r = 0) rows")
    case Nil
    with mon show ?thesis by (simp add: week_outcome_def)
  next
    case (Cons m ms)
    with mon show ?thesis
      using first_day_perm[OF sets, of "\<lambda>r. High r > High m"]
            first_day_perm[OF sets, of "\<lambda>r. Low r < Low m"]
      by (simp add: week_outcome_def same_week_def monday_fields_def high_broken_def
          low_broken_def)
  qed
qed

lemma map_filter_rel:
  "(\<And>x. x \<in> set xs \<Longrightarrow> rel_option R (f x) (g x)) \<Longrightarrow>
     list_all2 R (List.map_filter f xs) (List.map_filter g xs)"
proof (induction xs)
  case Nil
  show ?case by simp
next
  case (Cons a xs)
  have IH: "list_all2 R (List.map_filter f xs) (List.map_filter g xs)"
    by (rule Cons.IH) (simp add: Cons.prems)
  have "rel_option R (f a) (g a)"
    by (simp add: Cons.prems)
  then show ?case
    using IH by (cases "f a"; cases "g a") simp_all
qed

lemma outcomes_perm:
  assumes "mset df' = mset df"
    and "distinct (map week_key (filter (\<lambda>r. DayOfWeek r = 0) df))"
  shows "list_all2 same_week (outcomes df') (outcomes df)"
  unfolding outcomes_alt group_keys_mset[OF assms(1)]
proof (rule map_filter_rel)
  fix k
  have "mset (filter (\<lambda>r. week_key r = k) df') = mset (filter (\<lambda>r. week_key r = k) df)"
    by (simp only: mset_filter assms(1))
  moreover have "length (filter (\<lambda>r. DayOfWeek r = 0) (filter (\<lambda>r. week_key r = k) df)) \<le> 1"
  proof -
    have "filter (\<lambda>r. DayOfWeek r = 0) (filter (\<lambda>r. week_key r = k) df)
        = filter (\<lambda>r. week_key r = k) (filter (\<lambda>r. DayOfWeek r = 0) df)"
      by (simp add: conj_commute)
    then show ?thesis
      using distinct_filter_key[OF assms(2), of k] by simp
  qed
  ultimately show "rel_option same_week
      (week_outcome (k, filter (\<lambda>r. week_key r = k) df'))
      (week_outcome (k, filter (\<lambda>r. week_key r = k) df))"
    by (rule week_outcome_perm)
qed

lemma same_week_filter:
  "list_all2 same_week ws' ws \<Longrightarrow>
     map monday_fields (filter (\<lambda>w. P (high_broken w) (low_broken w)) ws') =
     map monday_fields (filter (\<lambda>w. P (high_broken w) (low_broken w)) ws)"
  by (induction rule: list_all2_induct) (auto simp: same_week_def)

lemma same_week_length:
  assumes "list_all2 same_week ws' ws"
  shows "length (filter (\<lambda>w. P (high_broken w) (low_broken w)) ws') =
         length (filter (\<lambda>w. P (high_broken w) (low_broken w)) ws)"
  using same_week_filter[OF assms, of P] by (metis length_map)

lemmas run_defs =
  analyze_partial_breaks_def analyze_monday_ranges_def partial_body_def ranges_body_def
  and_then_def groupby_def group_keys_def week_key_def counter_incr_def
  eligible_weeks_def high_broken_def low_broken_def info_key_def

lemmas week_both_defs =
  week_both_def monday_2024_01_01_def tuesday_2024_01_02_def wednesday_2024_01_03_def

section \<open>The claims\<close>

text \<open>
  C1. Let the data frame be sorted by date and let week \<open>k\<close> be eligible, with \<open>m\<close> its
  first Monday row. Then \<^verbatim>\<open>analyze_partial_breaks\<close> stores exactly one week with the key
  \<open>k\<close>; its Monday high and low are those of \<open>m\<close>; its \<^verbatim>\<open>High Break Day\<close> is set iff
  some Tuesday-to-Friday row of the week has a high strictly above the Monday high, and
  is then the weekday of such a row of the earliest date; likewise its \<^verbatim>\<open>Low Break Day\<close>
  with lows strictly below the Monday low. A high equal to the Monday high (a low equal
  to the Monday low) is not in \<open>high_break_candles\<close> (\<open>low_break_candles\<close>): it is no
  break. The tallies of \<^verbatim>\<open>analyze_monday_ranges\<close> count these same first break days.
\<close>

theorem first_break_day_is_earliest:
  assumes "sorted (map Date df)"
    and "analyze_partial_breaks df = Inr (oh, ol, nb, bb, t)"
    and "analyze_monday_ranges df = Inr (t', h, l, b, dh, dl)"
    and "filter (\<lambda>r. week_key r = k \<and> DayOfWeek r = 0) df = m # ms"
  shows "(\<exists>w. filter (\<lambda>w. info_key w = k) (oh @ ol @ nb @ bb) = [w] \<and>
        Monday_High w = High m \<and> Monday_Low w = Low m \<and>
        (High_Break_Day w \<noteq> None \<longleftrightarrow> high_break_candles df k (High m) \<noteq> []) \<and>
        (\<forall>d. High_Break_Day w = Some d \<longrightarrow>
          (\<exists>r \<in> set (high_break_candles df k (High m)). DayOfWeek r = d \<and>
             (\<forall>r' \<in> set (high_break_candles df k (High m)). Date r \<le> Date r'))) \<and>
        (Low_Break_Day w \<noteq> None \<longleftrightarrow> low_break_candles df k (Low m) \<noteq> []) \<and>
        (\<forall>d. Low_Break_Day w = Some d \<longrightarrow>
          (\<exists>r \<in> set (low_break_candles df k (Low m)). DayOfWeek r = d \<and>
             (\<forall>r' \<in> set (low_break_candles df k (Low m)). Date r \<le> Date r')))) \<and>
     (\<forall>d. counter_get dh d =
        int (length (filter (\<lambda>w. High_Break_Day w = Some d) (oh @ ol @ nb @ bb)))) \<and>
     (\<forall>d. counter_get dl d =
        int (length (filter (\<lambda>w. Low_Break_Day w = Some d) (oh @ ol @ nb @ bb))))"
proof -
  let ?all = "oh @ ol @ nb @ bb"
  let ?ws = "outcomes df"
  let ?hb = "high_break_candles df k (High m)"
  let ?lb = "low_break_candles df k (Low m)"
  define w where "w = \<lparr>info_Date = Date m, info_Week = fst k, info_Year = snd k,
           Monday_High = High m, Monday_Low = Low m,
           High_Break_Day = first_day ?hb, Low_Break_Day = first_day ?lb\<rparr>"
  have all: "mset ?all = mset ?ws"
    using assms(2) by (rule mset_categories)
  have wo: "week_outcome (k, filter (\<lambda>r. week_key r = k) df) = Some w"
    unfolding w_def using assms(4) by (rule week_outcome_of_week)
  have "m \<in> set (filter (\<lambda>r. week_key r = k \<and> DayOfWeek r = 0) df)"
    by (simp add: assms(4))
  then have "k \<in> set (group_keys df)"
    by (auto simp: set_group_keys)
  then have w_in: "w \<in> set ?ws"
    unfolding outcomes_alt using wo by (rule in_map_filterI)
  have key: "info_key w = k"
    by (simp add: w_def info_key_def)
  have "distinct (map info_key ?ws)"
    by (simp only: outcomes_keys eligible_weeks_distinct)
  from filter_key_unique[OF this w_in] have one_ws: "filter (\<lambda>y. info_key y = k) ?ws = [w]"
    by (simp add: key)
  have e: "mset (filter (\<lambda>y. info_key y = k) ?all) = mset (filter (\<lambda>y. info_key y = k) ?ws)"
    by (simp only: mset_filter all)
  have "mset (filter (\<lambda>y. info_key y = k) ?all) = {#w#}"
    unfolding e one_ws by simp
  then have one: "filter (\<lambda>w. info_key w = k) ?all = [w]"
    by (rule iffD1[OF mset_single_iff])
  have shb: "sorted (map Date ?hb)"
    unfolding high_break_candles_def using assms(1) by (rule sorted_filter)
  have slb: "sorted (map Date ?lb)"
    unfolding low_break_candles_def using assms(1) by (rule sorted_filter)
  have hday: "\<forall>d. High_Break_Day w = Some d \<longrightarrow>
      (\<exists>r \<in> set ?hb. DayOfWeek r = d \<and> (\<forall>r' \<in> set ?hb. Date r \<le> Date r'))"
    using first_day_earliest[OF shb] by (simp add: w_def)
  have lday: "\<forall>d. Low_Break_Day w = Some d \<longrightarrow>
      (\<exists>r \<in> set ?lb. DayOfWeek r = d \<and> (\<forall>r' \<in> set ?lb. Date r \<le> Date r'))"
    using first_day_earliest[OF slb] by (simp add: w_def)
  have hbr: "High_Break_Day w \<noteq> None \<longleftrightarrow> ?hb \<noteq> []"
    by (simp add: w_def)
  have lbr: "Low_Break_Day w \<noteq> None \<longleftrightarrow> ?lb \<noteq> []"
    by (simp add: w_def)
  have mh: "Monday_High w = High m" and ml: "Monday_Low w = Low m"
    by (simp_all add: w_def)
  have first: "\<exists>w. filter (\<lambda>w. info_key w = k) ?all = [w] \<and>
        Monday_High w = High m \<and> Monday_Low w = Low m \<and>
        (High_Break_Day w \<noteq> None \<longleftrightarrow> ?hb \<noteq> []) \<and>
        (\<forall>d. High_Break_Day w = Some d \<longrightarrow>
          (\<exists>r \<in> set ?hb. DayOfWeek r = d \<and> (\<forall>r' \<in> set ?hb. Date r \<le> Date r'))) \<and>
        (Low_Break_Day w \<noteq> None \<longleftrightarrow> ?lb \<noteq> []) \<and>
        (\<forall>d. Low_Break_Day w = Some d \<longrightarrow>
          (\<exists>r \<in> set ?lb. DayOfWeek r = d \<and> (\<forall>r' \<in> set ?lb. Date r \<le> Date r')))"
    using one mh ml hbr hday lbr lday by blast
  from assms(3) have dh: "dh = foldl (\<lambda>c w. tally (High_Break_Day w) c) [] ?ws"
    and dl: "dl = foldl (\<lambda>c w. tally (Low_Break_Day w) c) [] ?ws"
    by (simp_all add: analyze_monday_ranges_eq)
  have th: "counter_get dh d =
      int (length (filter (\<lambda>w. High_Break_Day w = Some d) ?all))" for d
    unfolding dh using length_filter_mset_eq[OF all] by (simp add: counter_get_tally)
  have tl: "counter_get dl d =
      int (length (filter (\<lambda>w. Low_Break_Day w = Some d) ?all))" for d
    unfolding dl using length_filter_mset_eq[OF all] by (simp add: counter_get_tally)
  from first th tl show ?thesis by blast
qed


theorem first_break_day_is_earliest_witness:
  "sorted (map Date week_both) \<and>
   filter (\<lambda>r. week_key r = (1, 2024) \<and> DayOfWeek r = 0) week_both = [monday_2024_01_01] \<and>
   analyze_partial_breaks week_both =
     Inr ([], [], [],
          [\<lparr>info_Date = 19723, info_Week = 1, info_Year = 2024, Monday_High = 10,
            Monday_Low = 5, High_Break_Day = Some 1, Low_Break_Day = Some 2\<rparr>], 1) \<and>
   high_break_candles week_both (1, 2024) 10 = [tuesday_2024_01_02] \<and>
   low_break_candles week_both (1, 2024) 5 = [wednesday_2024_01_03]"
proof -
  have s: "sorted (map Date week_both)"
    by (simp add: week_both_defs)
  have mon: "filter (\<lambda>r. week_key r = (1, 2024) \<and> DayOfWeek r = 0) week_both
      = [monday_2024_01_01]"
    by (simp add: week_both_defs week_key_def)
  have pb: "analyze_partial_breaks week_both =
     Inr ([], [], [],
          [\<lparr>info_Date = 19723, info_Week = 1, info_Year = 2024, Monday_High = 10,
            Monday_Low = 5, High_Break_Day = Some 1, Low_Break_Day = Some 2\<rparr>], 1)"
    by (simp add: run_defs week_both_defs)
  have mr: "analyze_monday_ranges week_both = Inr (1, 1, 1, 1, [(1, 1)], [(2, 1)])"
    by (simp add: run_defs week_both_defs)
  have hb: "high_break_candles week_both (1, 2024) 10 = [tuesday_2024_01_02]"
    by (simp add: high_break_candles_def week_both_defs week_key_def)
  have lb: "low_break_candles week_both (1, 2024) 5 = [wednesday_2024_01_03]"
    by (simp add: low_break_candles_def week_both_defs week_key_def)
  from first_break_day_is_earliest[OF s pb mr mon] s mon pb hb lb
  show ?thesis by simp
qed

text \<open>
  C2. For every data frame, \<^verbatim>\<open>analyze_partial_breaks\<close> returns (it does not raise), every
  eligible week is stored in exactly one of the four lists (the keys of the stored weeks
  are the eligible weeks, each once), a week stored in \<^verbatim>\<open>only_high_broken\<close> has its high
  broken and not its low, one in \<^verbatim>\<open>only_low_broken\<close> its low and not its high, one in
  \<^verbatim>\<open>neither_broken\<close> neither and one in \<^verbatim>\<open>both_broken\<close> both, and the four lengths add up
  to \<^verbatim>\<open>total_mondays\<close>, the number of eligible weeks.
\<close>

theorem partial_breaks_partition:
  "\<exists>oh ol nb bb t.
     analyze_partial_breaks df = Inr (oh, ol, nb, bb, t) \<and>
     mset (map info_key (oh @ ol @ nb @ bb)) = mset (eligible_weeks df) \<and>
     distinct (eligible_weeks df) \<and>
     (\<forall>w \<in> set oh. high_broken w \<and> \<not> low_broken w) \<and>
     (\<forall>w \<in> set ol. low_broken w \<and> \<not> high_broken w) \<and>
     (\<forall>w \<in> set nb. \<not> high_broken w \<and> \<not> low_broken w) \<and>
     (\<forall>w \<in> set bb. high_broken w \<and> low_broken w) \<and>
     int (length oh) + int (length ol) + int (length nb) + int (length bb) = t \<and>
     t = int (length (eligible_weeks df))"
proof -
  let ?ws = "outcomes df"
  let ?oh = "filter (\<lambda>w. high_broken w \<and> \<not> low_broken w) ?ws"
  let ?ol = "filter (\<lambda>w. low_broken w \<and> \<not> high_broken w) ?ws"
  let ?nb = "filter (\<lambda>w. \<not> high_broken w \<and> \<not> low_broken w) ?ws"
  let ?bb = "filter (\<lambda>w. high_broken w \<and> low_broken w) ?ws"
  have all: "mset (?oh @ ?ol @ ?nb @ ?bb) = mset ?ws"
    by (rule mset_four_filters)
  have keys: "mset (map info_key (?oh @ ?ol @ ?nb @ ?bb)) = mset (eligible_weeks df)"
    using all outcomes_keys[of df] by (metis mset_map)
  have len: "length ?ws = length (eligible_weeks df)"
    using outcomes_keys[of df] by (metis length_map)
  have "length (?oh @ ?ol @ ?nb @ ?bb) = length ?ws"
    using all by (metis size_mset)
  then have sum: "int (length ?oh) + int (length ?ol) + int (length ?nb) + int (length ?bb)
      = int (length ?ws)"
    by simp
  show ?thesis
    using keys sum len eligible_weeks_distinct[of df]
    by (simp add: analyze_partial_breaks_eq)
qed

theorem partial_breaks_partition_witness:
  "analyze_partial_breaks week_both =
     Inr ([], [], [],
          [\<lparr>info_Date = 19723, info_Week = 1, info_Year = 2024, Monday_High = 10,
            Monday_Low = 5, High_Break_Day = Some 1, Low_Break_Day = Some 2\<rparr>], 1) \<and>
   eligible_weeks week_both = [(1, 2024)]"
  using partial_breaks_partition [of week_both]
  by (simp add: run_defs week_both_defs)

text \<open>
  C3. For every data frame, both functions return, \<^verbatim>\<open>monday_highs_taken\<close> is the length
  of \<^verbatim>\<open>only_high_broken\<close> plus the length of \<^verbatim>\<open>both_broken\<close>, \<^verbatim>\<open>monday_lows_taken\<close> is the
  length of \<^verbatim>\<open>only_low_broken\<close> plus the length of \<^verbatim>\<open>both_broken\<close>, and the two values of
  \<^verbatim>\<open>total_mondays\<close> are the same.
\<close>

theorem ranges_counts_agree:
  "\<exists>t h l b dh dl oh ol nb bb t'.
     analyze_monday_ranges df = Inr (t, h, l, b, dh, dl) \<and>
     analyze_partial_breaks df = Inr (oh, ol, nb, bb, t') \<and>
     h = int (length oh) + int (length bb) \<and>
     l = int (length ol) + int (length bb) \<and>
     t = t'"
  using length_filter_split[of high_broken "outcomes df" low_broken]
        length_filter_split[of low_broken "outcomes df" high_broken]
  by (simp add: analyze_monday_ranges_eq analyze_partial_breaks_eq conj_commute)

text \<open>
  C4. When \<^verbatim>\<open>total_mondays\<close> is positive, the figure \<^verbatim>\<open>either_break_prob\<close> computed by
  inclusion and exclusion from the counts of \<^verbatim>\<open>analyze_monday_ranges\<close> is one minus the
  number of weeks in \<^verbatim>\<open>neither_broken\<close> (the eligible weeks with neither level broken, as
  \<^verbatim>\<open>analyze_partial_breaks\<close> lists them) divided by \<^verbatim>\<open>total_mondays\<close>, over exact
  arithmetic.
\<close>

theorem either_break_complement:
  assumes "analyze_monday_ranges df = Inr (t, h, l, b, dh, dl)"
    and "analyze_partial_breaks df = Inr (oh, ol, nb, bb, t')"
    and "t > 0"
  shows "either_break_prob t h l b = Inr (1 - real_of_int (int (length nb)) / real_of_int t)"
proof -
  let ?ws = "outcomes df"
  from assms(1) have t: "t = int (length ?ws)"
    and h: "h = int (length (filter high_broken ?ws))"
    and l: "l = int (length (filter low_broken ?ws))"
    and b: "b = int (length (filter (\<lambda>w. high_broken w \<and> low_broken w) ?ws))"
    by (simp_all add: analyze_monday_ranges_eq)
  from assms(2) have nb: "nb = filter (\<lambda>w. \<not> high_broken w \<and> \<not> low_broken w) ?ws"
    by (simp add: analyze_partial_breaks_eq)
  have "h + l - b = t - int (length nb)"
    unfolding t h l b nb by (rule inclusion_exclusion_filters)
  moreover have "real_of_int (t - int (length nb)) / real_of_int t
      = 1 - real_of_int (int (length nb)) / real_of_int t"
    using assms(3) by (simp add: diff_divide_distrib)
  ultimately show ?thesis
    using assms(3) by (simp add: either_break_prob_def py_div_def)
qed

theorem either_break_complement_witness:
  "analyze_monday_ranges week_both = Inr (1, 1, 1, 1, [(1, 1)], [(2, 1)]) \<and>
   either_break_prob 1 1 1 1 = Inr 1"
proof -
  have a: "analyze_monday_ranges week_both = Inr (1, 1, 1, 1, [(1, 1)], [(2, 1)])"
    by (simp add: run_defs week_both_defs)
  have b: "analyze_partial_breaks week_both =
     Inr ([], [], [],
          [\<lparr>info_Date = 19723, info_Week = 1, info_Year = 2024, Monday_High = 10,
            Monday_Low = 5, High_Break_Day = Some 1, Low_Break_Day = Some 2\<rparr>], 1)"
    by (simp add: run_defs week_both_defs)
  have c: "(0::int) < 1" by simp
  from either_break_complement[OF a b c] a show ?thesis by simp
qed

text \<open>
  C5. The tallies of \<^verbatim>\<open>day_high_break\<close> add up to \<^verbatim>\<open>monday_highs_taken\<close> and those of
  \<^verbatim>\<open>day_low_break\<close> to \<^verbatim>\<open>monday_lows_taken\<close>; \<^verbatim>\<open>calculate_probabilities\<close> returns, and
  when \<^verbatim>\<open>monday_highs_taken\<close> is positive the values of \<^verbatim>\<open>day_high_probs\<close> add up to
  exactly 1, likewise \<^verbatim>\<open>day_low_probs\<close> when \<^verbatim>\<open>monday_lows_taken\<close> is positive.
\<close>

theorem day_probabilities_sum_to_one:
  assumes "analyze_monday_ranges df = Inr (t, h, l, b, dh, dl)"
  shows "sum_list (map snd dh) = h \<and> sum_list (map snd dl) = l \<and>
     (\<exists>hp lp dhp dlp.
        calculate_probabilities t h l b dh dl = Inr (hp, lp, dhp, dlp) \<and>
        (h > 0 \<longrightarrow> sum_list (map snd dhp) = 1) \<and>
        (l > 0 \<longrightarrow> sum_list (map snd dlp) = 1))"
proof -
  let ?ws = "outcomes df"
  from assms have h: "h = int (length (filter high_broken ?ws))"
    and l: "l = int (length (filter low_broken ?ws))"
    and dh: "dh = foldl (\<lambda>c w. tally (High_Break_Day w) c) [] ?ws"
    and dl: "dl = foldl (\<lambda>c w. tally (Low_Break_Day w) c) [] ?ws"
    by (simp_all add: analyze_monday_ranges_eq)
  have sh: "sum_list (map snd dh) = h"
    unfolding dh h by (simp only: sum_tally length_filter_high_broken) simp
  have sl: "sum_list (map snd dl) = l"
    unfolding dl l by (simp only: sum_tally length_filter_low_broken) simp
  have kh: "fst ` set dh \<subseteq> {1, 2, 3, 4}"
    unfolding dh by (rule tally_keys_high)
  have kl: "fst ` set dl \<subseteq> {1, 2, 3, 4}"
    unfolding dl by (rule tally_keys_low)
  have disth: "distinct (map fst dh)"
    unfolding dh by (rule distinct_tally) simp
  have distl: "distinct (map fst dl)"
    unfolding dl by (rule distinct_tally) simp
  from calculate_probabilities_returns[OF kh kl, of h l t b]
  obtain dhp dlp where dhp: "day_probs h dh [] = Inr dhp"
    and dlp: "day_probs l dl [] = Inr dlp"
    and cp: "calculate_probabilities t h l b dh dl =
       Inr (if t > 0 then real_of_int h / real_of_int t else 0,
            if t > 0 then real_of_int l / real_of_int t else 0, dhp, dlp)"
    by blast
  have "h > 0 \<longrightarrow> sum_list (map snd dhp) = 1"
    using day_probs_total[OF dhp disth sh] by blast
  moreover have "l > 0 \<longrightarrow> sum_list (map snd dlp) = 1"
    using day_probs_total[OF dlp distl sl] by blast
  ultimately show ?thesis
    using sh sl cp by blast
qed

theorem day_probabilities_sum_to_one_witness:
  "analyze_monday_ranges week_both = Inr (1, 1, 1, 1, [(1, 1)], [(2, 1)]) \<and>
   calculate_probabilities 1 1 1 1 [(1, 1)] [(2, 1)] =
     Inr (1, 1, [(''Tuesday'', 1)], [(''Wednesday'', 1)]) \<and>
   sum_list (map snd [(''Tuesday'', 1::real)]) = 1"
proof -
  have a: "analyze_monday_ranges week_both = Inr (1, 1, 1, 1, [(1, 1)], [(2, 1)])"
    by (simp add: run_defs week_both_defs)
  have c: "calculate_probabilities 1 1 1 1 [(1, 1)] [(2, 1)] =
     Inr (1, 1, [(''Tuesday'', 1)], [(''Wednesday'', 1)])"
    by (simp add: calculate_probabilities_def and_then_def py_div_def day_names_def)
  from day_probabilities_sum_to_one[OF a] a c show ?thesis by simp
qed

text \<open>
  C10. Every key of \<^verbatim>\<open>day_high_break\<close> and of \<^verbatim>\<open>day_low_break\<close> is one of 1, 2, 3, 4,
  and \<^verbatim>\<open>calculate_probabilities\<close> on the result of \<^verbatim>\<open>analyze_monday_ranges\<close> returns: the
  lookup \<^verbatim>\<open>day_names[day]\<close> never raises \<^verbatim>\<open>KeyError\<close>.
\<close>

theorem tally_keys_are_weekdays:
  "\<exists>t h l b dh dl.
     analyze_monday_ranges df = Inr (t, h, l, b, dh, dl) \<and>
     fst ` set dh \<subseteq> {1, 2, 3, 4} \<and> fst ` set dl \<subseteq> {1, 2, 3, 4} \<and>
     (\<exists>res. calculate_probabilities t h l b dh dl = Inr res)"
proof -
  let ?ws = "outcomes df"
  let ?dh = "foldl (\<lambda>c w. tally (High_Break_Day w) c) [] ?ws"
  let ?dl = "foldl (\<lambda>c w. tally (Low_Break_Day w) c) [] ?ws"
  have "\<exists>res. calculate_probabilities t h l b ?dh ?dl = Inr res" for t h l b
    using calculate_probabilities_returns[OF tally_keys_high tally_keys_low, of h df l df t b]
    by blast
  then show ?thesis
    using tally_keys_high[of df] tally_keys_low[of df]
    by (simp add: analyze_monday_ranges_eq)
qed

text \<open>
  C6. On a data frame without a Monday row (here a single Tuesday, and the empty frame)
  \<^verbatim>\<open>analyze_partial_breaks\<close> returns \<^verbatim>\<open>total_mondays = 0\<close> and the report of
  monday\_partial\_breaks.py divides by it: the run ends in \<^verbatim>\<open>ZeroDivisionError\<close>. The run
  of analyze\_monday\_ranges.py, whose divisions are guarded, reports 0 everywhere.
\<close>

theorem no_monday_report_raises:
  "analyze_partial_breaks [tuesday_2024_01_02] = Inr ([], [], [], [], 0) \<and>
   partial_main [tuesday_2024_01_02] = Inl ZeroDivisionError \<and>
   partial_main [] = Inl ZeroDivisionError \<and>
   ranges_main [tuesday_2024_01_02] = Inr ((0, 0, [], []), 0)"
  by (simp add: run_defs partial_main_def create_excel_report_def py_div_def ranges_main_def
      calculate_probabilities_def either_break_prob_def tuesday_2024_01_02_def)

text \<open>
  C9. When no row of week \<open>k\<close> is a Monday row, both functions return, and they return
  what they return on the data frame without the rows of week \<open>k\<close>: the week adds
  nothing to \<^verbatim>\<open>total_mondays\<close>, to a break count or to a tally, the other weeks are
  processed as they are without it, and no list of \<^verbatim>\<open>analyze_partial_breaks\<close> holds a
  week with the key \<open>k\<close>.
\<close>

theorem week_without_monday_is_skipped:
  assumes "\<forall>r \<in> set df. week_key r = k \<longrightarrow> DayOfWeek r \<noteq> 0"
  shows "analyze_monday_ranges (filter (\<lambda>r. week_key r \<noteq> k) df) = analyze_monday_ranges df \<and>
         analyze_partial_breaks (filter (\<lambda>r. week_key r \<noteq> k) df) = analyze_partial_breaks df \<and>
         (\<exists>res. analyze_monday_ranges df = Inr res) \<and>
         (\<exists>oh ol nb bb t. analyze_partial_breaks df = Inr (oh, ol, nb, bb, t) \<and>
            k \<notin> info_key ` set (oh @ ol @ nb @ bb))"
proof -
  have eq: "outcomes (filter (\<lambda>r. week_key r \<noteq> k) df) = outcomes df"
    using assms by (rule outcomes_drop_week)
  have "k \<notin> set (eligible_weeks df)"
    using assms eligible_weeks_has_monday by blast
  then have "k \<notin> info_key ` set (outcomes df)"
    using outcomes_keys[of df] by (metis set_map)
  then have "k \<notin> info_key ` set
      (filter (\<lambda>w. high_broken w \<and> \<not> low_broken w) (outcomes df)
       @ filter (\<lambda>w. low_broken w \<and> \<not> high_broken w) (outcomes df)
       @ filter (\<lambda>w. \<not> high_broken w \<and> \<not> low_broken w) (outcomes df)
       @ filter (\<lambda>w. high_broken w \<and> low_broken w) (outcomes df))"
    by auto
  then show ?thesis
    by (simp only: analyze_monday_ranges_eq analyze_partial_breaks_eq eq) blast
qed

theorem week_without_monday_is_skipped_witness:
  "analyze_monday_ranges (week_both @ [tuesday_2024_01_09]) =
     Inr (1, 1, 1, 1, [(1, 1)], [(2, 1)]) \<and>
   analyze_monday_ranges week_both = Inr (1, 1, 1, 1, [(1, 1)], [(2, 1)]) \<and>
   filter (\<lambda>r. week_key r \<noteq> (2, 2024)) (week_both @ [tuesday_2024_01_09]) = week_both"
proof -
  have h: "\<forall>r \<in> set (week_both @ [tuesday_2024_01_09]).
      week_key r = (2, 2024) \<longrightarrow> DayOfWeek r \<noteq> 0"
    by (simp add: week_both_defs tuesday_2024_01_09_def week_key_def)
  have f: "filter (\<lambda>r. week_key r \<noteq> (2, 2024)) (week_both @ [tuesday_2024_01_09]) = week_both"
    by (simp add: week_both_defs tuesday_2024_01_09_def week_key_def)
  have a: "analyze_monday_ranges week_both = Inr (1, 1, 1, 1, [(1, 1)], [(2, 1)])"
    by (simp add: run_defs week_both_defs)
  from week_without_monday_is_skipped[OF h] f a show ?thesis
    by simp
qed

text \<open>
  C8, as stated, fails: on the two Mondays 2023-01-09 (week 2 of 2023) and 2024-01-01
  (week 1 of 2024), given in the order of their dates, the loop visits week 1 of 2024
  first, and \<^verbatim>\<open>neither_broken\<close> lists it before week 2 of 2023.
\<close>

theorem chronological_order_counterexample:
  "sorted (map Date two_years) \<and>
   map fst (groupby two_years) = [(1, 2024), (2, 2023)] \<and>
   analyze_partial_breaks two_years =
     Inr ([], [],
          [\<lparr>info_Date = 19723, info_Week = 1, info_Year = 2024, Monday_High = 10,
             Monday_Low = 5, High_Break_Day = None, Low_Break_Day = None\<rparr>,
           \<lparr>info_Date = 19366, info_Week = 2, info_Year = 2023, Monday_High = 10,
             Monday_Low = 5, High_Break_Day = None, Low_Break_Day = None\<rparr>],
          [], 2) \<and>
   ((2023::int), (2::int)) < (2024, 1)"
  by (simp add: run_defs two_years_def monday_2023_01_09_def monday_2024_01_01_def)

text \<open>
  C8, amended. The groups are visited in strictly ascending order of the pair
  \<^verbatim>\<open>(week, year)\<close>, the week number first, and each of the four lists is in that order.
\<close>

theorem weeks_in_week_year_order:
  "\<exists>oh ol nb bb t.
     analyze_partial_breaks df = Inr (oh, ol, nb, bb, t) \<and>
     sorted_wrt (<) (map fst (groupby df)) \<and>
     sorted_wrt (<) (map info_key oh) \<and> sorted_wrt (<) (map info_key ol) \<and>
     sorted_wrt (<) (map info_key nb) \<and> sorted_wrt (<) (map info_key bb)"
proof -
  have "map fst (groupby df) = group_keys df"
    by (simp add: groupby_def comp_def)
  then show ?thesis
    using group_keys_sorted[of df]
    by (simp add: analyze_partial_breaks_eq sorted_keys_filter)
qed

text \<open>
  C7, as stated, fails: exchanging the Tuesday and the Wednesday row of one week, both
  above the Monday high, moves the tally of the first high break from Tuesday to
  Wednesday.
\<close>

theorem permutation_counterexample:
  "mset wed_then_tue = mset tue_then_wed \<and>
   analyze_monday_ranges tue_then_wed = Inr (1, 1, 0, 0, [(1, 1)], []) \<and>
   analyze_monday_ranges wed_then_tue = Inr (1, 1, 0, 0, [(2, 1)], [])"
  by (simp add: run_defs tue_then_wed_def wed_then_tue_def monday_2024_01_01_def
      tuesday_2024_01_02_def wednesday_high_2024_01_03_def)

text \<open>
  C7, amended. When no week holds two Monday rows, permuting the rows of the data frame
  changes neither \<^verbatim>\<open>total_mondays\<close> nor the three break counts, and each of the four lists
  holds the same weeks in the same order, with the same Monday date, high and low. The
  first break days (the tallies and the two break day fields) depend on the order of
  the rows.
\<close>

theorem permutation_keeps_counts:
  assumes "mset df' = mset df"
    and "distinct (map week_key (filter (\<lambda>r. DayOfWeek r = 0) df))"
  shows "\<exists>t h l b dh dl dh' dl' oh ol nb bb oh' ol' nb' bb'.
     analyze_monday_ranges df = Inr (t, h, l, b, dh, dl) \<and>
     analyze_monday_ranges df' = Inr (t, h, l, b, dh', dl') \<and>
     analyze_partial_breaks df = Inr (oh, ol, nb, bb, t) \<and>
     analyze_partial_breaks df' = Inr (oh', ol', nb', bb', t) \<and>
     map monday_fields oh' = map monday_fields oh \<and>
     map monday_fields ol' = map monday_fields ol \<and>
     map monday_fields nb' = map monday_fields nb \<and>
     map monday_fields bb' = map monday_fields bb"
proof -
  have rel: "list_all2 same_week (outcomes df') (outcomes df)"
    using assms by (rule outcomes_perm)
  then have len: "length (outcomes df') = length (outcomes df)"
    by (rule list_all2_lengthD)
  note f = same_week_filter[OF rel]
  note n = same_week_length[OF rel]
  show ?thesis
    using len
      n[of "\<lambda>a b. a"] n[of "\<lambda>a b. b"] n[of "\<lambda>a b. a \<and> b"]
      f[of "\<lambda>a b. a \<and> \<not> b"] f[of "\<lambda>a b. b \<and> \<not> a"]
      f[of "\<lambda>a b. \<not> a \<and> \<not> b"] f[of "\<lambda>a b. a \<and> b"]
    by (simp add: analyze_monday_ranges_eq analyze_partial_breaks_eq)
qed

theorem permutation_keeps_counts_witness:
  "mset wed_then_tue = mset tue_then_wed \<and>
   distinct (map week_key (filter (\<lambda>r. DayOfWeek r = 0) tue_then_wed)) \<and>
   analyze_monday_ranges tue_then_wed = Inr (1, 1, 0, 0, [(1, 1)], []) \<and>
   analyze_monday_ranges wed_then_tue = Inr (1, 1, 0, 0, [(2, 1)], [])"
proof -
  have p: "mset wed_then_tue = mset tue_then_wed"
    by (simp add: tue_then_wed_def wed_then_tue_def)
  have d: "distinct (map week_key (filter (\<lambda>r. DayOfWeek r = 0) tue_then_wed))"
    by (simp add: tue_then_wed_def monday_2024_01_01_def tuesday_2024_01_02_def
        wednesday_high_2024_01_03_def)
  have a: "analyze_monday_ranges tue_then_wed = Inr (1, 1, 0, 0, [(1, 1)], [])"
    by (simp add: run_defs tue_then_wed_def monday_2024_01_01_def tuesday_2024_01_02_def
        wednesday_high_2024_01_03_def)
  have b: "analyze_monday_ranges wed_then_tue = Inr (1, 1, 0, 0, [(2, 1)], [])"
    by (simp add: run_defs wed_then_tue_def monday_2024_01_01_def tuesday_2024_01_02_def
        wednesday_high_2024_01_03_def)
  from permutation_keeps_counts[OF p d] p d a b show ?thesis by simp
qed

end
